theory Spec2Isabelle
  imports Complex_Main
begin

section \<open>Navigation state and the active route\<close>

text \<open>
  \<^verbatim>\<open>src/navigation/helpers/navigationUtilities.ts\<close> works on the navigation library's
  \<^verbatim>\<open>NavigationState | PartialState<NavigationState>\<close>: an optional \<^verbatim>\<open>index\<close> and a list of
  routes, each route with a \<^verbatim>\<open>name\<close> and an optional nested \<^verbatim>\<open>state\<close>. The index is a
  JavaScript number, so it is an \<open>int\<close> here: a negative or too large index reads
  \<^verbatim>\<open>undefined\<close> from the array.
\<close>

datatype js_error = TypeError | StorageError

datatype route = Route (name: string) (state: "nav_state option")
  and nav_state = NavState (index: "int option") (routes: "route list")

text \<open>
  \<^verbatim>\<open>const route = state.routes[state.index ?? 0]\<close>. An array read out of range gives
  \<^verbatim>\<open>undefined\<close>, which is \<open>None\<close>.
\<close>

definition selectedRoute :: "nav_state \<Rightarrow> route option" where
  "selectedRoute st =
     (let i = (case index st of None \<Rightarrow> 0 | Some j \<Rightarrow> j)
      in if 0 \<le> i \<and> i < int (length (routes st)) then Some (routes st ! nat i) else None)"

lemma size_nth_route: "i < length rs \<Longrightarrow> size (rs ! i) < Suc (size_list size rs)"
proof (induction rs arbitrary: i)
  case Nil
  then show ?case by simp
next
  case (Cons a rs)
  show ?case
  proof (cases i)
    case 0
    then show ?thesis by simp
  next
    case (Suc k)
    with Cons.prems have "k < length rs" by simp
    from Cons.IH [OF this] show ?thesis using Suc by simp
  qed
qed

lemma selectedRoute_in_routes:
  assumes "selectedRoute st = Some r"
  shows "\<exists>i<length (routes st). r = routes st ! i"
proof -
  define j where "j = (case index st of None \<Rightarrow> 0 | Some k \<Rightarrow> k)"
  from assms have "0 \<le> j" "j < int (length (routes st))" "r = routes st ! nat j"
    by (auto simp: selectedRoute_def j_def Let_def split: if_splits)
  then have "nat j < length (routes st)" by linarith
  with \<open>r = routes st ! nat j\<close> show ?thesis by blast
qed

lemma selectedRoute_size:
  assumes "selectedRoute st = Some r" and "state r = Some s"
  shows "size s < size st"
proof -
  from assms(1) obtain i where i: "i < length (routes st)" "r = routes st ! i"
    using selectedRoute_in_routes by blast
  have "size s < size r" using assms(2) by (cases r) simp
  also have "\<dots> < Suc (size_list size (routes st))" using i size_nth_route by blast
  also have "\<dots> = size st" by (cases st) simp
  finally show ?thesis .
qed

text \<open>
  \<^verbatim>\<open>getActiveRouteName\<close>: with \<^verbatim>\<open>route\<close> undefined, \<^verbatim>\<open>route.state\<close> throws a
  \<^verbatim>\<open>TypeError\<close>; otherwise the name is returned when there is no nested state, and the
  function recurses into the nested state when there is one.
\<close>

function getActiveRouteName :: "nav_state \<Rightarrow> js_error + string" where
  "getActiveRouteName st =
     (case selectedRoute st of
        None \<Rightarrow> Inl TypeError
      | Some route \<Rightarrow>
          (case state route of
             None \<Rightarrow> Inr (name route)
           | Some nested \<Rightarrow> getActiveRouteName nested))"
  by pat_completeness auto
termination
  by (relation "measure size") (auto dest: selectedRoute_size)

declare getActiveRouteName.simps [simp del]

text \<open>
  The spec's words for the active route, stated on the fields \<open>index\<close> and \<open>routes\<close>
  themselves: position \<open>k\<close> of the routes list is the index-selected one when the index
  is \<open>k\<close>, or is absent and \<open>k\<close> is 0. Descending through the index-selected routes
  until one has no child state gives the active leaf.
\<close>

inductive indexSelects :: "nav_state \<Rightarrow> nat \<Rightarrow> bool" where
  absent: "index st = None \<Longrightarrow> 0 < length (routes st) \<Longrightarrow> indexSelects st 0"
| present: "index st = Some i \<Longrightarrow> 0 \<le> i \<Longrightarrow> nat i < length (routes st)
            \<Longrightarrow> indexSelects st (nat i)"

code_pred indexSelects .

inductive activeLeaf :: "nav_state \<Rightarrow> string \<Rightarrow> bool" where
  leaf: "indexSelects st k \<Longrightarrow> routes st ! k = Route n None \<Longrightarrow> activeLeaf st n"
| descend: "indexSelects st k \<Longrightarrow> routes st ! k = Route m (Some nested)
            \<Longrightarrow> activeLeaf nested n \<Longrightarrow> activeLeaf st n"

code_pred activeLeaf .

text \<open>
  The nesting levels the lookup reaches: the state itself, then the nested state of
  each selected route in turn.
\<close>

function reachedLevels :: "nav_state \<Rightarrow> nav_state list" where
  "reachedLevels st =
     st # (case selectedRoute st of
             None \<Rightarrow> []
           | Some route \<Rightarrow>
               (case state route of None \<Rightarrow> [] | Some nested \<Rightarrow> reachedLevels nested))"
  by pat_completeness auto
termination
  by (relation "measure size") (auto dest: selectedRoute_size)

declare reachedLevels.simps [simp del]

text \<open>
  The precondition in the claim's words: the index, 0 when absent, selects an existing
  entry of a non-empty routes list.
\<close>

definition selectsExistingRoute :: "nav_state \<Rightarrow> bool" where
  "selectsExistingRoute st =
     (routes st \<noteq> [] \<and>
      (case index st of
         None \<Rightarrow> True
       | Some i \<Rightarrow> 0 \<le> i \<and> i < int (length (routes st))))"

definition exampleState :: nav_state where
  "exampleState =
     NavState (Some 0)
       [Route ''Tab'' (Some (NavState (Some 1) [Route ''Home'' None, Route ''Settings'' None]))]"

section \<open>The hardware back button\<close>

text \<open>
  The navigation host behind \<^verbatim>\<open>navigationRef\<close>, as far as the helpers read it:
  \<^verbatim>\<open>isReady()\<close>, \<^verbatim>\<open>getRootState()\<close> and \<^verbatim>\<open>canGoBack()\<close>. What a helper does to the host or
  to the platform is returned as a list of calls, in order.
\<close>

record nav_host =
  isReady :: bool
  getRootState :: nav_state
  hostCanGoBack :: bool

datatype host_call = ExitApp | HostGoBack | HostCanGoBack

text \<open>
  The closure \<^verbatim>\<open>onBackPress\<close> of \<^verbatim>\<open>useBackButtonHandler\<close>, with the current content of
  \<^verbatim>\<open>canExitRef\<close> as its first argument. The result is the handler's return value (whether
  the event was handled) and the calls it made; an exception thrown by
  \<^verbatim>\<open>getActiveRouteName\<close> leaves the handler.
\<close>

definition onBackPress :: "(string \<Rightarrow> bool) \<Rightarrow> nav_host \<Rightarrow> js_error + (bool \<times> host_call list)" where
  "onBackPress canExitCurrent host =
     (if \<not> isReady host then Inr (False, [])
      else
        (case getActiveRouteName (getRootState host) of
           Inl e \<Rightarrow> Inl e
         | Inr routeName \<Rightarrow>
             if canExitCurrent routeName then Inr (True, [ExitApp])
             else if hostCanGoBack host then Inr (True, [HostGoBack])
             else Inr (False, [])))"

text \<open>
  The hook \<^verbatim>\<open>useBackButtonHandler\<close> over the renders of its component. On iOS it returns
  before any hook is set up. Otherwise the first render creates \<^verbatim>\<open>canExitRef\<close> and runs
  both effects: the one with dependency \<^verbatim>\<open>[canExit]\<close> stores the predicate in the ref, the
  one with dependency \<^verbatim>\<open>[]\<close> subscribes \<^verbatim>\<open>onBackPress\<close>. A later render with another
  predicate runs the first effect only. Unmounting runs the cleanup of the second.
\<close>

datatype listener_call = AddEventListener | RemoveEventListener

record back_button_hook =
  canExitRef :: "string \<Rightarrow> bool"
  subscribed :: bool
  listenerCalls :: "listener_call list"

definition mountBackButtonHandler :: "string \<Rightarrow> (string \<Rightarrow> bool) \<Rightarrow> back_button_hook option" where
  "mountBackButtonHandler platformOS canExit =
     (if platformOS = ''ios'' then None
      else Some \<lparr>canExitRef = canExit, subscribed = True, listenerCalls = [AddEventListener]\<rparr>)"

definition rerenderBackButtonHandler :: "(string \<Rightarrow> bool) \<Rightarrow> back_button_hook \<Rightarrow> back_button_hook" where
  "rerenderBackButtonHandler canExit h = h\<lparr>canExitRef := canExit\<rparr>"

definition unmountBackButtonHandler :: "back_button_hook \<Rightarrow> back_button_hook" where
  "unmountBackButtonHandler h =
     h\<lparr>subscribed := False, listenerCalls := listenerCalls h @ [RemoveEventListener]\<rparr>"

text \<open>
  A \<^verbatim>\<open>hardwareBackPress\<close> event reaches \<^verbatim>\<open>onBackPress\<close> while it is subscribed; the closure
  reads \<^verbatim>\<open>canExitRef.current\<close> at that moment.
\<close>

definition hardwareBackPress ::
  "back_button_hook \<Rightarrow> nav_host \<Rightarrow> (js_error + (bool \<times> host_call list)) option" where
  "hardwareBackPress h host =
     (if subscribed h then Some (onBackPress (canExitRef h) host) else None)"

datatype hook_event = Rerender "string \<Rightarrow> bool" | BackPress nav_host

fun runHook ::
  "back_button_hook \<Rightarrow> hook_event list
    \<Rightarrow> back_button_hook \<times> (js_error + (bool \<times> host_call list)) option list" where
  "runHook h [] = (h, [])"
| "runHook h (Rerender canExit # es) = runHook (rerenderBackButtonHandler canExit h) es"
| "runHook h (BackPress host # es) =
     (let (h', outs) = runHook h es in (h', hardwareBackPress h host # outs))"

section \<open>The global navigation handle\<close>

text \<open>
  \<^verbatim>\<open>goBack\<close> and \<^verbatim>\<open>canGoBack\<close> of \<^verbatim>\<open>RootNavigation\<close>. Neither has a \<^verbatim>\<open>return\<close> statement, so
  the value of a call is \<^verbatim>\<open>undefined\<close>: \<open>None\<close> in a result of type \<open>bool option\<close>.
\<close>

definition goBack :: "nav_host \<Rightarrow> host_call list" where
  "goBack host = (if isReady host \<and> hostCanGoBack host then [HostCanGoBack, HostGoBack]
                  else if isReady host then [HostCanGoBack] else [])"

definition canGoBack :: "nav_host \<Rightarrow> bool option \<times> host_call list" where
  "canGoBack host =
     (if isReady host then (let answer = hostCanGoBack host in (None, [HostCanGoBack]))
      else (None, []))"

section \<open>Navigation persistence\<close>

text \<open>
  \<^verbatim>\<open>navigationRestoredDefaultState\<close>: the initial value of \<^verbatim>\<open>isRestored\<close>. The second
  argument is the build flag \<^verbatim>\<open>__DEV__\<close>. \<open>False\<close> means that a restoration is due.
\<close>

definition navigationRestoredDefaultState :: "string \<Rightarrow> bool \<Rightarrow> bool" where
  "navigationRestoredDefaultState persistNavigation dev =
     (if persistNavigation = ''always'' then False
      else if persistNavigation = ''dev'' \<and> dev then False
      else if persistNavigation = ''prod'' \<and> \<not> dev then False
      else True)"

text \<open>
  The state of \<^verbatim>\<open>useNavigationPersistence\<close>: its two \<^verbatim>\<open>useState\<close> cells, and the keys read
  from the storage so far. The storage's \<^verbatim>\<open>getItem\<close> is a parameter: for a key it rejects
  (\<open>Inl\<close>), resolves with nothing (\<open>Inr None\<close>) or resolves with a stored state.
\<close>

record persistence =
  initialNavigationState :: "nav_state option"
  isRestored :: bool
  storageReads :: "string list"

type_synonym storage_getItem = "string \<Rightarrow> js_error + nav_state option"

text \<open>
  \<^verbatim>\<open>restoreState\<close>: \<^verbatim>\<open>try { ... } finally { if (isMounted()) setIsRestored(true) }\<close>. There is
  no \<^verbatim>\<open>catch\<close>, so a rejected read is still the outcome of the call (first component),
  after the \<^verbatim>\<open>finally\<close> block has run.
\<close>

definition restoreState ::
  "storage_getItem \<Rightarrow> string \<Rightarrow> bool \<Rightarrow> persistence \<Rightarrow> js_error option \<times> persistence" where
  "restoreState getItem persistenceKey isMounted p =
     (let p1 = p\<lparr>storageReads := storageReads p @ [persistenceKey]\<rparr>;
          (thrown, p2) =
            (case getItem persistenceKey of
               Inl e \<Rightarrow> (Some e, p1)
             | Inr None \<Rightarrow> (None, p1)
             | Inr (Some st) \<Rightarrow> (None, p1\<lparr>initialNavigationState := Some st\<rparr>))
      in (thrown, if isMounted then p2\<lparr>isRestored := True\<rparr> else p2))"

text \<open>
  The effect \<^verbatim>\<open>if (!isRestored && __DEV__) restoreState()\<close>, with dependency
  \<^verbatim>\<open>[isRestored]\<close>.
\<close>

definition restoreEffect ::
  "storage_getItem \<Rightarrow> string \<Rightarrow> bool \<Rightarrow> bool \<Rightarrow> persistence \<Rightarrow> js_error option \<times> persistence" where
  "restoreEffect getItem persistenceKey dev isMounted p =
     (if \<not> isRestored p \<and> dev then restoreState getItem persistenceKey isMounted p
      else (None, p))"

text \<open>
  The hook from its first render on: the cells are initialised, the effect runs after
  the first render and again after each render in which \<^verbatim>\<open>isRestored\<close> has changed. The
  first argument bounds the number of renders.
\<close>

definition initialPersistence :: "string \<Rightarrow> bool \<Rightarrow> persistence" where
  "initialPersistence persistNavigation dev =
     \<lparr>initialNavigationState = None,
      isRestored = navigationRestoredDefaultState persistNavigation dev,
      storageReads = []\<rparr>"

fun runEffects :: "nat \<Rightarrow> storage_getItem \<Rightarrow> string \<Rightarrow> bool \<Rightarrow> bool \<Rightarrow> persistence \<Rightarrow> persistence" where
  "runEffects 0 getItem persistenceKey dev isMounted p = p"
| "runEffects (Suc k) getItem persistenceKey dev isMounted p =
     (let p' = snd (restoreEffect getItem persistenceKey dev isMounted p)
      in if isRestored p' = isRestored p then p'
         else runEffects k getItem persistenceKey dev isMounted p')"

definition useNavigationPersistence ::
  "nat \<Rightarrow> storage_getItem \<Rightarrow> string \<Rightarrow> string \<Rightarrow> bool \<Rightarrow> bool \<Rightarrow> persistence" where
  "useNavigationPersistence renders getItem persistenceKey persistNavigation dev isMounted =
     runEffects renders getItem persistenceKey dev isMounted
       (initialPersistence persistNavigation dev)"

text \<open>The spec's restore policy table: which pairs of policy and build mode restore.\<close>

definition policyRestores :: "string \<Rightarrow> bool \<Rightarrow> bool" where
  "policyRestores persistNavigation dev =
     (persistNavigation = ''always''
      \<or> (persistNavigation = ''dev'' \<and> dev)
      \<or> (persistNavigation = ''prod'' \<and> \<not> dev))"

section \<open>The bottom sheet's drag gesture\<close>

text \<open>
  \<^verbatim>\<open>src/screens/Login/index.tsx\<close>: the shared values \<^verbatim>\<open>translateY\<close> and \<^verbatim>\<open>scale\<close> and the
  gesture context \<^verbatim>\<open>ctx.startY\<close>. JavaScript numbers are taken as reals. The argument of
  \<open>onActive\<close> is \<^verbatim>\<open>event.translationY\<close>, which the gesture handler reports as the
  translation accumulated since the gesture began.
\<close>

record sheet =
  translateY :: real
  scale :: real
  startY :: real

definition onStart :: "sheet \<Rightarrow> sheet" where
  "onStart s = s\<lparr>startY := translateY s\<rparr>"

definition onActive :: "real \<Rightarrow> sheet \<Rightarrow> sheet" where
  "onActive translationY s =
     s\<lparr>translateY := startY s + translationY,
       scale := (if translationY > 0 then 1 - translationY / 1000 else 1)\<rparr>"

text \<open>A drag: the start event, then the move events in the order they arrive.\<close>

definition drag :: "real list \<Rightarrow> sheet \<Rightarrow> sheet" where
  "drag moves s = foldl (\<lambda>acc translationY. onActive translationY acc) (onStart s) moves"

section \<open>The bottom sheet's animations\<close>

text \<open>
  The end event and the mount effect do not assign numbers: they assign the animation
  objects \<^verbatim>\<open>withSpring(toValue)\<close> and \<^verbatim>\<open>withTiming(toValue, {duration})\<close>. A shared value has
  its current number and the animation assigned to it, if any.
\<close>

datatype animation = WithSpring real | WithTiming real real

record animated_sheet =
  sheetValues :: sheet
  translateYAnimation :: "animation option"
  scaleAnimation :: "animation option"

text \<open>
  \<^verbatim>\<open>useSharedValue(0)\<close> and \<^verbatim>\<open>useSharedValue(1)\<close>. The gesture context has no \<^verbatim>\<open>startY\<close> before
  the first start event, and nothing reads it before \<open>onStart\<close> has written it: its first
  content is a parameter.
\<close>

definition useSharedValues :: "real \<Rightarrow> animated_sheet" where
  "useSharedValues ctxStartY =
     \<lparr>sheetValues = \<lparr>translateY = 0, scale = 1, startY = ctxStartY\<rparr>,
      translateYAnimation = None, scaleAnimation = None\<rparr>"

text \<open>
  The body of the mount effect: \<^verbatim>\<open>translateY.value = 300\<close>, then
  \<^verbatim>\<open>translateY.value = withTiming(0, { duration: 1000 })\<close>.
\<close>

definition entranceEffect :: "animated_sheet \<Rightarrow> animated_sheet" where
  "entranceEffect a =
     a\<lparr>sheetValues := (sheetValues a)\<lparr>translateY := 300\<rparr>,
       translateYAnimation := Some (WithTiming 0 1000)\<rparr>"

text \<open>
  \<^verbatim>\<open>onEnd\<close> takes no argument and reads no value: whatever the event and the shared
  values are, it assigns \<^verbatim>\<open>withSpring(0)\<close> and \<^verbatim>\<open>withSpring(1)\<close>.
\<close>

definition onEnd :: "real \<Rightarrow> animated_sheet \<Rightarrow> animated_sheet" where
  "onEnd translationY a =
     a\<lparr>translateYAnimation := Some (WithSpring 0), scaleAnimation := Some (WithSpring 1)\<rparr>"

text \<open>
  The component \<^verbatim>\<open>BottomUpAnimation\<close> over its renders. The mount effect has the dependency
  list \<^verbatim>\<open>[translateY]\<close>: the shared value object, which \<^verbatim>\<open>useSharedValue\<close> returns the same
  on every render and which is a reference here. The effect runs after a render when
  there was no render before or the list differs from the previous one.
\<close>

record bottom_up_animation =
  sharedValues :: animated_sheet
  translateYRef :: nat
  lastDeps :: "nat list option"
  entranceRuns :: nat

definition mountBottomUpAnimation :: "nat \<Rightarrow> real \<Rightarrow> bottom_up_animation" where
  "mountBottomUpAnimation ref ctxStartY =
     \<lparr>sharedValues = useSharedValues ctxStartY, translateYRef = ref, lastDeps = None,
      entranceRuns = 0\<rparr>"

definition renderBottomUpAnimation :: "bottom_up_animation \<Rightarrow> bottom_up_animation" where
  "renderBottomUpAnimation c =
     (let deps = [translateYRef c]
      in if lastDeps c = Some deps then c
         else c\<lparr>sharedValues := entranceEffect (sharedValues c), lastDeps := Some deps,
                entranceRuns := Suc (entranceRuns c)\<rparr>)"

fun renderTimes :: "nat \<Rightarrow> bottom_up_animation \<Rightarrow> bottom_up_animation" where
  "renderTimes 0 c = c"
| "renderTimes (Suc k) c = renderTimes k (renderBottomUpAnimation c)"

text \<open>
  Modelled from the spec: the frames of the animation library, which is not part of the
  repository. A time-based animation goes from the value it started at to its target
  over its fixed duration along an easing curve and stays at the target afterwards; a
  spring animation follows the library's physics, a parameter (start value, target and
  elapsed time to value). Time is in milliseconds since the assignment.
\<close>

definition valueAt ::
  "(real \<Rightarrow> real) \<Rightarrow> (real \<Rightarrow> real \<Rightarrow> real \<Rightarrow> real) \<Rightarrow> animation option \<Rightarrow> real \<Rightarrow> real \<Rightarrow> real" where
  "valueAt easing spring anim v0 t =
     (case anim of
        None \<Rightarrow> v0
      | Some (WithTiming toValue duration) \<Rightarrow>
          if duration \<le> t then toValue else v0 + (toValue - v0) * easing (t / duration)
      | Some (WithSpring toValue) \<Rightarrow> spring v0 toValue t)"

definition frameAt ::
  "(real \<Rightarrow> real) \<Rightarrow> (real \<Rightarrow> real \<Rightarrow> real \<Rightarrow> real) \<Rightarrow> real \<Rightarrow> animated_sheet \<Rightarrow> sheet" where
  "frameAt easing spring t a =
     (sheetValues a)
       \<lparr>translateY := valueAt easing spring (translateYAnimation a) (translateY (sheetValues a)) t,
        scale := valueAt easing spring (scaleAnimation a) (scale (sheetValues a)) t\<rparr>"

text \<open>
  What the spec asks of the two curves: a spring converges to its target and rests there
  ("spring-settled"); an easing curve goes from 0 to 1 without ever going back.
\<close>

definition springSettles :: "(real \<Rightarrow> real \<Rightarrow> real \<Rightarrow> real) \<Rightarrow> bool" where
  "springSettles spring = (\<forall>v0 toValue. \<exists>T. \<forall>t\<ge>T. spring v0 toValue t = toValue)"

definition easingCurve :: "(real \<Rightarrow> real) \<Rightarrow> bool" where
  "easingCurve easing =
     (easing 0 = 0 \<and> easing 1 = 1 \<and> (\<forall>x y. 0 \<le> x \<and> x \<le> y \<and> y \<le> 1 \<longrightarrow> easing x \<le> easing y))"

text \<open>Two curves of these kinds: the linear easing, and a spring at rest after 400 ms.\<close>

definition linearEasing :: "real \<Rightarrow> real" where
  "linearEasing x = x"

definition snapSpring :: "real \<Rightarrow> real \<Rightarrow> real \<Rightarrow> real" where
  "snapSpring v0 toValue t = (if 400 \<le> t then toValue else toValue + (v0 - toValue) * (1 - t / 400))"

section \<open>Properties of the active route lookup\<close>

lemma indexSelects_iff:
  "indexSelects st k \<longleftrightarrow>
     k < length (routes st) \<and> (index st = Some (int k) \<or> index st = None \<and> k = 0)"
proof
  assume "indexSelects st k"
  then show "k < length (routes st) \<and> (index st = Some (int k) \<or> index st = None \<and> k = 0)"
    by (cases rule: indexSelects.cases) auto
next
  assume r: "k < length (routes st) \<and> (index st = Some (int k) \<or> index st = None \<and> k = 0)"
  show "indexSelects st k"
  proof (cases "index st")
    case None
    with r show ?thesis by (auto intro: indexSelects.absent)
  next
    case (Some i)
    with r have "i = int k" by simp
    with Some r indexSelects.present [of st i] show ?thesis by simp
  qed
qed

lemma indexSelects_selectedRoute:
  "indexSelects st k \<longleftrightarrow> k < length (routes st) \<and> selectedRoute st = Some (routes st ! k)
      \<and> k = nat (case index st of None \<Rightarrow> 0 | Some j \<Rightarrow> j)"
  by (cases "index st") (auto simp: indexSelects_iff selectedRoute_def)

lemma selectedRoute_indexSelects:
  assumes "selectedRoute st = Some r"
  shows "\<exists>k. indexSelects st k \<and> routes st ! k = r"
proof -
  define j where "j = (case index st of None \<Rightarrow> 0 | Some k \<Rightarrow> k)"
  from assms have j: "0 \<le> j" "j < int (length (routes st))" "r = routes st ! nat j"
    by (auto simp: selectedRoute_def j_def Let_def split: if_splits)
  then have "nat j < length (routes st)" by linarith
  moreover have "index st = Some (int (nat j)) \<or> index st = None \<and> nat j = 0"
    using j(1) by (cases "index st") (simp_all add: j_def)
  ultimately have "indexSelects st (nat j)" by (simp add: indexSelects_iff)
  with j(3) show ?thesis by blast
qed

lemma getActiveRouteName_leaf:
  "selectedRoute st = Some r \<Longrightarrow> state r = None \<Longrightarrow> getActiveRouteName st = Inr (name r)"
  by (simp add: getActiveRouteName.simps)

lemma getActiveRouteName_nested:
  "selectedRoute st = Some r \<Longrightarrow> state r = Some nested
    \<Longrightarrow> getActiveRouteName st = getActiveRouteName nested"
  by (simp add: getActiveRouteName.simps)

lemma getActiveRouteName_at_leaf:
  assumes "indexSelects st k" and "state (routes st ! k) = None"
  shows "getActiveRouteName st = Inr (name (routes st ! k))"
  using assms getActiveRouteName_leaf [of st "routes st ! k"]
  by (simp add: indexSelects_selectedRoute)

lemma getActiveRouteName_at_nested:
  assumes "indexSelects st k" and "state (routes st ! k) = Some nested"
  shows "getActiveRouteName st = getActiveRouteName nested"
  using assms getActiveRouteName_nested [of st "routes st ! k" nested]
  by (simp add: indexSelects_selectedRoute)

lemma activeLeaf_imp_name: "activeLeaf st n \<Longrightarrow> getActiveRouteName st = Inr n"
proof (induction rule: activeLeaf.induct)
  case (leaf st k n)
  then show ?case using getActiveRouteName_at_leaf [of st k] by simp
next
  case (descend st k m nested n)
  then show ?case using getActiveRouteName_at_nested [of st k nested] by simp
qed

lemma name_imp_activeLeaf: "getActiveRouteName st = Inr n \<Longrightarrow> activeLeaf st n"
proof (induction st rule: getActiveRouteName.induct)
  case (1 st)
  show ?case
  proof (cases "selectedRoute st")
    case None
    with "1.prems" show ?thesis by (simp add: getActiveRouteName.simps)
  next
    case (Some r)
    then obtain k where k: "indexSelects st k" "routes st ! k = r"
      using selectedRoute_indexSelects by blast
    show ?thesis
    proof (cases "state r")
      case None
      with Some "1.prems" have "n = name r" by (simp add: getActiveRouteName.simps)
      with None have "r = Route n None" by (cases r) simp
      with k show ?thesis by (auto intro: activeLeaf.leaf)
    next
      case (Some nested)
      with \<open>selectedRoute st = Some r\<close> "1.prems" have "getActiveRouteName nested = Inr n"
        by (simp add: getActiveRouteName.simps)
      with "1.IH" [OF \<open>selectedRoute st = Some r\<close> Some] have leaf: "activeLeaf nested n" .
      from Some have "r = Route (name r) (Some nested)" by (cases r) simp
      with k have "routes st ! k = Route (name r) (Some nested)" by simp
      with k(1) show ?thesis using leaf by (rule activeLeaf.descend)
    qed
  qed
qed

lemma exampleState_name: "getActiveRouteName exampleState = Inr ''Settings''"
  by (simp add: exampleState_def getActiveRouteName.simps selectedRoute_def)

lemma selectsExistingRoute_iff: "selectsExistingRoute st \<longleftrightarrow> selectedRoute st \<noteq> None"
  by (cases "index st") (auto simp: selectsExistingRoute_def selectedRoute_def)

lemma reachedLevels_stop:
  "selectedRoute st = None \<or> (\<exists>r. selectedRoute st = Some r \<and> state r = None)
    \<Longrightarrow> reachedLevels st = [st]"
  by (subst reachedLevels.simps) auto

lemma reachedLevels_nested:
  "selectedRoute st = Some r \<Longrightarrow> state r = Some nested
    \<Longrightarrow> reachedLevels st = st # reachedLevels nested"
  by (subst reachedLevels.simps) simp

lemma name_iff_levels:
  "(\<exists>n. getActiveRouteName st = Inr n) \<longleftrightarrow> list_all selectsExistingRoute (reachedLevels st)"
proof (induction st rule: getActiveRouteName.induct)
  case (1 st)
  show ?case
  proof (cases "selectedRoute st")
    case None
    then have "getActiveRouteName st = Inl TypeError" "reachedLevels st = [st]"
      by (simp_all add: getActiveRouteName.simps reachedLevels_stop)
    with None show ?thesis by (simp add: selectsExistingRoute_iff)
  next
    case (Some r)
    then have here: "selectsExistingRoute st" by (simp add: selectsExistingRoute_iff)
    show ?thesis
    proof (cases "state r")
      case None
      with Some have "getActiveRouteName st = Inr (name r)" "reachedLevels st = [st]"
        by (simp_all add: getActiveRouteName_leaf reachedLevels_stop)
      with here show ?thesis by simp
    next
      case (Some nested)
      with \<open>selectedRoute st = Some r\<close>
      have "getActiveRouteName st = getActiveRouteName nested"
        "reachedLevels st = st # reachedLevels nested"
        by (simp_all add: getActiveRouteName_nested reachedLevels_nested)
      with here "1.IH" [OF \<open>selectedRoute st = Some r\<close> Some] show ?thesis by simp
    qed
  qed
qed

lemma getActiveRouteName_cases:
  "getActiveRouteName st = Inl TypeError \<or> (\<exists>n. getActiveRouteName st = Inr n)"
proof (induction st rule: getActiveRouteName.induct)
  case (1 st)
  show ?case
  proof (cases "selectedRoute st")
    case None
    then show ?thesis by (simp add: getActiveRouteName.simps)
  next
    case (Some r)
    then show ?thesis using "1.IH" [OF Some]
      by (cases "state r") (simp_all add: getActiveRouteName.simps)
  qed
qed

text \<open>
  C6. When the route at position \<open>index\<close> of \<open>routes\<close> (position 0 when the index is
  absent) has no nested state, \<open>getActiveRouteName\<close> returns that route's name; when it
  has one, the result is that of the nested state, so the lookup ends at the deepest
  selected leaf (\<open>activeLeaf\<close>). On the spec's example state the result is "Settings".
\<close>

theorem getActiveRouteName_deepest_leaf:
  "(k < length (routes st) \<and> (index st = Some (int k) \<or> index st = None \<and> k = 0)
      \<and> state (routes st ! k) = None
      \<longrightarrow> getActiveRouteName st = Inr (name (routes st ! k)))
   \<and> (k < length (routes st) \<and> (index st = Some (int k) \<or> index st = None \<and> k = 0)
      \<and> state (routes st ! k) = Some nested
      \<longrightarrow> getActiveRouteName st = getActiveRouteName nested)
   \<and> (getActiveRouteName st = Inr n \<longleftrightarrow> activeLeaf st n)
   \<and> getActiveRouteName exampleState = Inr ''Settings''"
proof -
  have "getActiveRouteName st = Inr n \<longleftrightarrow> activeLeaf st n"
    using activeLeaf_imp_name name_imp_activeLeaf by blast
  then show ?thesis
    using getActiveRouteName_at_leaf [of st k] getActiveRouteName_at_nested [of st k nested]
      exampleState_name
    by (simp add: indexSelects_iff)
qed

theorem getActiveRouteName_deepest_leaf_witness:
  "getActiveRouteName (NavState (Some 1) [Route ''Home'' None, Route ''Settings'' None])
       = Inr ''Settings''
   \<and> getActiveRouteName (NavState (Some 0) [Route ''Home'' None, Route ''Settings'' None])
       = Inr ''Home''
   \<and> getActiveRouteName (NavState None [Route ''Home'' None, Route ''Settings'' None])
       = Inr ''Home''
   \<and> getActiveRouteName exampleState
       = getActiveRouteName (NavState (Some 1) [Route ''Home'' None, Route ''Settings'' None])
   \<and> activeLeaf exampleState ''Settings''"
  using getActiveRouteName_deepest_leaf
      [of 1 "NavState (Some 1) [Route ''Home'' None, Route ''Settings'' None]"
          "NavState None []" "''Settings''"]
    getActiveRouteName_deepest_leaf
      [of 0 "NavState (Some 0) [Route ''Home'' None, Route ''Settings'' None]"
          "NavState None []" "''Home''"]
    getActiveRouteName_deepest_leaf
      [of 0 "NavState None [Route ''Home'' None, Route ''Settings'' None]"
          "NavState None []" "''Home''"]
    getActiveRouteName_deepest_leaf
      [of 0 exampleState
          "NavState (Some 1) [Route ''Home'' None, Route ''Settings'' None]" "''Settings''"]
  by (simp add: exampleState_def)

text \<open>
  C10. \<open>getActiveRouteName\<close> returns a name exactly when, at every nesting level it
  reaches, the index (0 when absent) selects an existing entry of a non-empty routes
  list. When some reached level has an empty routes list or an index outside it, the
  lookup of the selected route gives no route and the function throws a \<open>TypeError\<close>
  instead of returning a name.
\<close>

theorem getActiveRouteName_total_iff:
  "((\<exists>n. getActiveRouteName st = Inr n) \<longleftrightarrow> (\<forall>lvl \<in> set (reachedLevels st). selectsExistingRoute lvl))
   \<and> ((\<exists>lvl \<in> set (reachedLevels st). routes lvl = [] \<or> \<not> selectsExistingRoute lvl)
        \<longleftrightarrow> getActiveRouteName st = Inl TypeError)
   \<and> (\<forall>lvl \<in> set (reachedLevels st). \<not> selectsExistingRoute lvl \<longrightarrow> selectedRoute lvl = None)"
proof -
  have total: "(\<exists>n. getActiveRouteName st = Inr n)
      \<longleftrightarrow> (\<forall>lvl \<in> set (reachedLevels st). selectsExistingRoute lvl)"
    by (simp add: name_iff_levels list_all_iff)
  have empty: "routes lvl = [] \<Longrightarrow> \<not> selectsExistingRoute lvl" for lvl
    by (simp add: selectsExistingRoute_def)
  have "(\<exists>lvl \<in> set (reachedLevels st). routes lvl = [] \<or> \<not> selectsExistingRoute lvl)
      \<longleftrightarrow> \<not> (\<exists>n. getActiveRouteName st = Inr n)"
    using total empty by blast
  also have "\<dots> \<longleftrightarrow> getActiveRouteName st = Inl TypeError"
    using getActiveRouteName_cases [of st] by auto
  finally have fault: "(\<exists>lvl \<in> set (reachedLevels st). routes lvl = [] \<or> \<not> selectsExistingRoute lvl)
      \<longleftrightarrow> getActiveRouteName st = Inl TypeError" .
  have "\<forall>lvl \<in> set (reachedLevels st). \<not> selectsExistingRoute lvl \<longrightarrow> selectedRoute lvl = None"
    by (simp add: selectsExistingRoute_iff)
  with total fault show ?thesis by blast
qed

theorem getActiveRouteName_total_iff_witness:
  "reachedLevels exampleState
     = [exampleState, NavState (Some 1) [Route ''Home'' None, Route ''Settings'' None]]
   \<and> selectsExistingRoute exampleState
   \<and> selectsExistingRoute (NavState (Some 1) [Route ''Home'' None, Route ''Settings'' None])
   \<and> (\<exists>n. getActiveRouteName exampleState = Inr n)
   \<and> reachedLevels (NavState (Some 0) [Route ''Tab'' (Some (NavState None []))])
     = [NavState (Some 0) [Route ''Tab'' (Some (NavState None []))], NavState None []]
   \<and> routes (NavState None []) = []
   \<and> getActiveRouteName (NavState (Some 0) [Route ''Tab'' (Some (NavState None []))])
     = Inl TypeError
   \<and> getActiveRouteName (NavState (Some 2) [Route ''Home'' None]) = Inl TypeError
   \<and> getActiveRouteName (NavState (Some (- 1)) [Route ''Home'' None]) = Inl TypeError"
  using getActiveRouteName_total_iff [of exampleState]
    getActiveRouteName_total_iff [of "NavState (Some 0) [Route ''Tab'' (Some (NavState None []))]"]
    getActiveRouteName_total_iff [of "NavState (Some 2) [Route ''Home'' None]"]
    getActiveRouteName_total_iff [of "NavState (Some (- 1)) [Route ''Home'' None]"]
  by (simp add: reachedLevels.simps selectedRoute_def selectsExistingRoute_def exampleState_def)

section \<open>Properties of the back button handler\<close>

text \<open>
  C7. A back press delivered while the host is ready, with \<open>routeName\<close> the active
  route name: when the exit predicate holds of it, the application is terminated and the
  event is reported as handled; when it does not and the host can go back, the host
  goes back and the event is reported as handled; when it does not and the host cannot
  go back, the event is reported as not handled.
\<close>

theorem onBackPress_outcomes:
  assumes "isReady host" and "getActiveRouteName (getRootState host) = Inr routeName"
  shows "(canExit routeName \<longrightarrow> onBackPress canExit host = Inr (True, [ExitApp]))
       \<and> (\<not> canExit routeName \<and> hostCanGoBack host
            \<longrightarrow> onBackPress canExit host = Inr (True, [HostGoBack]))
       \<and> (\<not> canExit routeName \<and> \<not> hostCanGoBack host
            \<longrightarrow> onBackPress canExit host = Inr (False, []))"
  using assms by (simp add: onBackPress_def)

theorem onBackPress_outcomes_witness:
  "onBackPress (\<lambda>n. n = ''Home'')
      \<lparr>isReady = True, getRootState = NavState None [Route ''Home'' None], hostCanGoBack = True\<rparr>
     = Inr (True, [ExitApp])
   \<and> onBackPress (\<lambda>n. False)
      \<lparr>isReady = True, getRootState = NavState None [Route ''Home'' None], hostCanGoBack = True\<rparr>
     = Inr (True, [HostGoBack])
   \<and> onBackPress (\<lambda>n. False)
      \<lparr>isReady = True, getRootState = NavState None [Route ''Home'' None], hostCanGoBack = False\<rparr>
     = Inr (False, [])"
proof -
  have name: "getActiveRouteName (NavState None [Route ''Home'' None]) = Inr ''Home''"
    by (simp add: getActiveRouteName.simps selectedRoute_def)
  show ?thesis
    using onBackPress_outcomes [of "\<lparr>isReady = True, getRootState = NavState None [Route ''Home'' None], hostCanGoBack = True\<rparr>" "''Home''" "\<lambda>n. n = ''Home''"]
      onBackPress_outcomes [of "\<lparr>isReady = True, getRootState = NavState None [Route ''Home'' None], hostCanGoBack = True\<rparr>" "''Home''" "\<lambda>n. False"]
      onBackPress_outcomes [of "\<lparr>isReady = True, getRootState = NavState None [Route ''Home'' None], hostCanGoBack = False\<rparr>" "''Home''" "\<lambda>n. False"]
      name
    by simp
qed

lemma runHook_rerenders:
  "runHook h (map Rerender ps @ Rerender p # es) = runHook (h\<lparr>canExitRef := p\<rparr>) es"
  by (induction ps arbitrary: h) (simp_all add: rerenderBackButtonHandler_def)

text \<open>
  C8. Two back presses with the exit predicate replaced in between (any number of
  renders, the last with \<open>p2\<close>): the first press consults \<open>p1\<close>, the second consults
  \<open>p2\<close>, and the only listener call of the whole run is the \<open>AddEventListener\<close> of the
  first render, so the listener was neither removed nor registered again.
\<close>

theorem newest_canExit_consulted:
  assumes "platformOS \<noteq> ''ios''"
  shows "map_option (\<lambda>h. runHook h (BackPress host1 # map Rerender (ps @ [p2]) @ [BackPress host2]))
           (mountBackButtonHandler platformOS p1)
         = Some (\<lparr>canExitRef = p2, subscribed = True, listenerCalls = [AddEventListener]\<rparr>,
                 [Some (onBackPress p1 host1), Some (onBackPress p2 host2)])"
proof -
  let ?h = "\<lparr>canExitRef = p1, subscribed = True, listenerCalls = [AddEventListener]\<rparr>"
  have mounted: "mountBackButtonHandler platformOS p1 = Some ?h"
    using assms by (simp add: mountBackButtonHandler_def)
  have "runHook ?h (map Rerender (ps @ [p2]) @ [BackPress host2])
      = runHook (?h\<lparr>canExitRef := p2\<rparr>) [BackPress host2]"
    using runHook_rerenders [of ?h ps p2 "[BackPress host2]"] by simp
  also have "\<dots> = (?h\<lparr>canExitRef := p2\<rparr>, [Some (onBackPress p2 host2)])"
    by (simp add: hardwareBackPress_def)
  finally have "runHook ?h (BackPress host1 # map Rerender (ps @ [p2]) @ [BackPress host2])
      = (?h\<lparr>canExitRef := p2\<rparr>, [Some (onBackPress p1 host1), Some (onBackPress p2 host2)])"
    by (simp add: hardwareBackPress_def)
  with mounted show ?thesis by simp
qed

theorem newest_canExit_consulted_witness:
  "''android'' \<noteq> ''ios''
   \<and> map_option
        (\<lambda>h. runHook h
           (BackPress \<lparr>isReady = True, getRootState = NavState None [Route ''Home'' None],
                        hostCanGoBack = True\<rparr>
            # map Rerender ([] @ [\<lambda>n. n = ''Home''])
            @ [BackPress \<lparr>isReady = True, getRootState = NavState None [Route ''Home'' None],
                           hostCanGoBack = True\<rparr>]))
        (mountBackButtonHandler ''android'' (\<lambda>n. False))
      = Some (\<lparr>canExitRef = (\<lambda>n. n = ''Home''), subscribed = True,
                listenerCalls = [AddEventListener]\<rparr>,
              [Some (Inr (True, [HostGoBack])), Some (Inr (True, [ExitApp]))])"
  using newest_canExit_consulted
      [of "''android''"
          "\<lparr>isReady = True, getRootState = NavState None [Route ''Home'' None], hostCanGoBack = True\<rparr>"
          "[]" "\<lambda>n. n = ''Home''"
          "\<lparr>isReady = True, getRootState = NavState None [Route ''Home'' None], hostCanGoBack = True\<rparr>"
          "\<lambda>n. False"]
  by (simp add: onBackPress_def getActiveRouteName.simps selectedRoute_def)

section \<open>Properties of the global navigation handle\<close>

text \<open>
  C9. \<open>canGoBack\<close> of the global navigation handle returns \<^verbatim>\<open>undefined\<close> for every host.
  With a ready host whose \<^verbatim>\<open>canGoBack()\<close> answers true, the host is asked and the answer
  is dropped: the caller still gets \<^verbatim>\<open>undefined\<close>.
\<close>

theorem canGoBack_returns_undefined:
  "fst (canGoBack host) = None
   \<and> canGoBack \<lparr>isReady = True, getRootState = st, hostCanGoBack = True\<rparr> = (None, [HostCanGoBack])"
  by (simp add: canGoBack_def)

section \<open>Properties of the navigation persistence\<close>

lemma runEffects_production:
  "runEffects k getItem persistenceKey False isMounted p = p"
  by (cases k) (simp_all add: restoreEffect_def)

lemma helper_matches_table:
  "navigationRestoredDefaultState persistNavigation dev = (\<not> policyRestores persistNavigation dev)"
  by (auto simp: navigationRestoredDefaultState_def policyRestores_def)

lemma restoreState_reads:
  "storageReads (snd (restoreState getItem persistenceKey isMounted p))
     = storageReads p @ [persistenceKey]"
  by (simp add: restoreState_def Let_def split: sum.splits option.splits)

lemma restoreState_isRestored:
  "isRestored (snd (restoreState getItem persistenceKey isMounted p)) = (isMounted \<or> isRestored p)"
  by (simp add: restoreState_def Let_def split: sum.splits option.splits)

lemma restoreState_initial:
  "initialNavigationState (snd (restoreState getItem persistenceKey isMounted p)) =
     (case getItem persistenceKey of Inr (Some st) \<Rightarrow> Some st | _ \<Rightarrow> initialNavigationState p)"
  by (simp add: restoreState_def Let_def split: sum.splits option.splits)

lemma runEffects_restored:
  "isRestored p \<Longrightarrow> runEffects k getItem persistenceKey dev isMounted p = p"
  by (cases k) (simp_all add: restoreEffect_def)

lemma restore_read_iff:
  "storageReads (useNavigationPersistence (Suc k) getItem persistenceKey persistNavigation dev isMounted)
     = (if dev \<and> (persistNavigation = ''always'' \<or> persistNavigation = ''dev'') then [persistenceKey] else [])"
  by (auto simp: useNavigationPersistence_def initialPersistence_def restoreEffect_def Let_def
      navigationRestoredDefaultState_def restoreState_reads restoreState_isRestored
      runEffects_restored)

text \<open>
  C1. The startup read against the spec's restore policy table, at the pairs where they
  differ. For the policies \<^verbatim>\<open>'prod'\<close> and \<^verbatim>\<open>'always'\<close> in a production build the table says
  restore, and \<open>navigationRestoredDefaultState\<close> leaves \<open>isRestored\<close> false so that a
  restoration is due; the effect's test of \<^verbatim>\<open>__DEV__\<close> then skips \<open>restoreState\<close>, and the
  storage is never read, however many renders follow.
\<close>

theorem restore_read_skipped_in_production:
  "policyRestores ''prod'' False
   \<and> \<not> navigationRestoredDefaultState ''prod'' False
   \<and> storageReads (useNavigationPersistence renders getItem persistenceKey ''prod'' False True) = []
   \<and> policyRestores ''always'' False
   \<and> \<not> navigationRestoredDefaultState ''always'' False
   \<and> storageReads (useNavigationPersistence renders getItem persistenceKey ''always'' False True) = []"
  by (simp add: useNavigationPersistence_def runEffects_production initialPersistence_def
      policyRestores_def navigationRestoredDefaultState_def)

text \<open>
  C2. The "restoration attempted" flag at a policy that enables restoration, in a
  production build, with the component mounted: \<open>restoreState\<close> is never called, so
  \<open>isRestored\<close> is false after every number of renders, whatever the storage would have
  answered.
\<close>

theorem isRestored_stuck_in_production:
  "policyRestores ''always'' False
   \<and> isRestored (useNavigationPersistence renders getItem persistenceKey ''always'' False True) = False
   \<and> initialNavigationState (useNavigationPersistence renders getItem persistenceKey ''always'' False True) = None
   \<and> isRestored (useNavigationPersistence renders getItem persistenceKey ''prod'' False True) = False"
  by (simp add: useNavigationPersistence_def runEffects_production initialPersistence_def
      policyRestores_def navigationRestoredDefaultState_def)

lemma restoration_completes_in_development:
  assumes "policyRestores persistNavigation True"
  shows "isRestored (useNavigationPersistence (Suc k) getItem persistenceKey persistNavigation True True)
    \<and> initialNavigationState (useNavigationPersistence (Suc k) getItem persistenceKey persistNavigation True True)
        = (case getItem persistenceKey of Inr (Some st) \<Rightarrow> Some st | _ \<Rightarrow> None)"
  using assms
  by (simp add: useNavigationPersistence_def initialPersistence_def restoreEffect_def Let_def helper_matches_table
       restoreState_isRestored restoreState_initial runEffects_restored
       split: sum.splits option.splits)

section \<open>Properties of the drag gesture\<close>

lemma onActive_startY: "startY (onActive dy s) = startY s"
  by (simp add: onActive_def)

lemma drag_startY: "startY (drag moves s) = translateY s"
proof (induction moves rule: rev_induct)
  case Nil
  show ?case by (simp add: drag_def onStart_def)
next
  case (snoc dy moves)
  then show ?case by (simp add: drag_def onActive_startY)
qed

lemma drag_snoc: "drag (moves @ [dy]) s = onActive dy (drag moves s)"
  by (simp add: drag_def)

text \<open>
  C3. The start event captures \<open>startY = translateY\<close> and changes neither \<open>translateY\<close>
  nor \<open>scale\<close>. After the start event and any sequence of move events, the last of
  them reporting the cumulative translation \<open>dy\<close>, \<open>translateY\<close> is the captured offset
  plus \<open>dy\<close>, unclamped; \<open>scale\<close> is \<open>1 - dy / 1000\<close> when \<open>dy > 0\<close> and \<open>1\<close> when
  \<open>dy \<le> 0\<close>.
\<close>

theorem drag_tracks_translation:
  "translateY (onStart s) = translateY s \<and> scale (onStart s) = scale s
   \<and> startY (onStart s) = translateY s
   \<and> translateY (drag (moves @ [dy]) s) = translateY s + dy
   \<and> (dy > 0 \<longrightarrow> scale (drag (moves @ [dy]) s) = 1 - dy / 1000)
   \<and> (dy \<le> 0 \<longrightarrow> scale (drag (moves @ [dy]) s) = 1)"
proof -
  have "translateY (drag (moves @ [dy]) s) = startY (drag moves s) + dy"
    by (simp add: drag_snoc onActive_def)
  then have offset: "translateY (drag (moves @ [dy]) s) = translateY s + dy"
    by (simp add: drag_startY)
  have shrink: "scale (drag (moves @ [dy]) s) = (if dy > 0 then 1 - dy / 1000 else 1)"
    by (simp add: drag_snoc onActive_def)
  from offset shrink show ?thesis by (simp add: onStart_def)
qed

theorem drag_tracks_translation_witness:
  "(120::real) > 0
   \<and> translateY (drag ([10, 250] @ [120]) \<lparr>translateY = 40, scale = 1, startY = 0\<rparr>) = 160
   \<and> scale (drag ([10, 250] @ [120]) \<lparr>translateY = 40, scale = 1, startY = 0\<rparr>) = 22 / 25
   \<and> (- 30::real) \<le> 0
   \<and> translateY (drag ([10, 250] @ [- 30]) \<lparr>translateY = 40, scale = 1, startY = 0\<rparr>) = 10
   \<and> scale (drag ([10, 250] @ [- 30]) \<lparr>translateY = 40, scale = 1, startY = 0\<rparr>) = 1"
  using drag_tracks_translation [of "\<lparr>translateY = 40, scale = 1, startY = 0\<rparr>" "[10, 250]" 120]
    drag_tracks_translation [of "\<lparr>translateY = 40, scale = 1, startY = 0\<rparr>" "[10, 250]" "- 30"]
  by simp

section \<open>Properties of the animations\<close>

lemma spring_frames_settle:
  assumes "springSettles spring"
  shows "\<exists>T. \<forall>t\<ge>T. spring v0 a t = a \<and> spring w0 b t = b"
proof -
  from assms obtain T1 where T1: "\<forall>t\<ge>T1. spring v0 a t = a"
    unfolding springSettles_def by blast
  from assms obtain T2 where T2: "\<forall>t\<ge>T2. spring w0 b t = b"
    unfolding springSettles_def by blast
  have "\<forall>t\<ge>max T1 T2. spring v0 a t = a \<and> spring w0 b t = b"
    using T1 T2 by simp
  then show ?thesis by blast
qed

lemma snapSpring_settles: "springSettles snapSpring"
  unfolding springSettles_def
proof (intro allI)
  fix v0 toValue :: real
  have "\<forall>t\<ge>400. snapSpring v0 toValue t = toValue" by (simp add: snapSpring_def)
  then show "\<exists>T. \<forall>t\<ge>T. snapSpring v0 toValue t = toValue" by blast
qed

lemma linearEasing_curve: "easingCurve linearEasing"
  by (simp add: easingCurve_def linearEasing_def)

text \<open>
  C4. The end event assigns a spring animation towards 0 to \<open>translateY\<close> and one
  towards 1 to \<open>scale\<close>, whatever the event and whatever the two values are at release;
  the values themselves are left as they are, and there is no other outcome, so no
  release dismisses the sheet. With a spring that settles, from some moment on every
  frame shows \<open>translateY = 0\<close> and \<open>scale = 1\<close>.
\<close>

theorem onEnd_springs_back:
  assumes "springSettles spring"
  shows "translateYAnimation (onEnd translationY a) = Some (WithSpring 0)
       \<and> scaleAnimation (onEnd translationY a) = Some (WithSpring 1)
       \<and> sheetValues (onEnd translationY a) = sheetValues a
       \<and> (\<exists>T. \<forall>t\<ge>T. translateY (frameAt easing spring t (onEnd translationY a)) = 0
                      \<and> scale (frameAt easing spring t (onEnd translationY a)) = 1)"
proof -
  from spring_frames_settle [OF assms]
  obtain T where "\<forall>t\<ge>T. spring (translateY (sheetValues a)) 0 t = 0
      \<and> spring (scale (sheetValues a)) 1 t = 1"
    by blast
  then have "\<forall>t\<ge>T. translateY (frameAt easing spring t (onEnd translationY a)) = 0
      \<and> scale (frameAt easing spring t (onEnd translationY a)) = 1"
    by (simp add: frameAt_def valueAt_def onEnd_def)
  then show ?thesis by (auto simp: onEnd_def)
qed

theorem onEnd_springs_back_witness:
  "translateYAnimation
      (onEnd 250 \<lparr>sheetValues = \<lparr>translateY = 290, scale = 3 / 4, startY = 40\<rparr>,
                  translateYAnimation = None, scaleAnimation = None\<rparr>) = Some (WithSpring 0)
   \<and> scaleAnimation
      (onEnd 250 \<lparr>sheetValues = \<lparr>translateY = 290, scale = 3 / 4, startY = 40\<rparr>,
                  translateYAnimation = None, scaleAnimation = None\<rparr>) = Some (WithSpring 1)
   \<and> frameAt linearEasing snapSpring 200
      (onEnd 250 \<lparr>sheetValues = \<lparr>translateY = 290, scale = 3 / 4, startY = 40\<rparr>,
                  translateYAnimation = None, scaleAnimation = None\<rparr>)
       = \<lparr>translateY = 145, scale = 7 / 8, startY = 40\<rparr>
   \<and> frameAt linearEasing snapSpring 400
      (onEnd 250 \<lparr>sheetValues = \<lparr>translateY = 290, scale = 3 / 4, startY = 40\<rparr>,
                  translateYAnimation = None, scaleAnimation = None\<rparr>)
       = \<lparr>translateY = 0, scale = 1, startY = 40\<rparr>"
  using onEnd_springs_back [OF snapSpring_settles, of 250
      "\<lparr>sheetValues = \<lparr>translateY = 290, scale = 3 / 4, startY = 40\<rparr>,
        translateYAnimation = None, scaleAnimation = None\<rparr>" linearEasing]
  by (simp add: frameAt_def valueAt_def snapSpring_def onEnd_def)

lemma render_after_first:
  "lastDeps c = Some [translateYRef c] \<Longrightarrow> renderBottomUpAnimation c = c"
  by (simp add: renderBottomUpAnimation_def)

lemma renders_after_first:
  "lastDeps c = Some [translateYRef c] \<Longrightarrow> renderTimes k c = c"
  by (induction k) (simp_all add: render_after_first)

lemma first_render:
  "renderBottomUpAnimation (mountBottomUpAnimation ref ctxStartY)
     = \<lparr>sharedValues = entranceEffect (useSharedValues ctxStartY), translateYRef = ref,
        lastDeps = Some [ref], entranceRuns = 1\<rparr>"
  by (simp add: renderBottomUpAnimation_def mountBottomUpAnimation_def)

lemma renders_entrance_once:
  "renderTimes (Suc k) (mountBottomUpAnimation ref ctxStartY)
     = \<lparr>sharedValues = entranceEffect (useSharedValues ctxStartY), translateYRef = ref,
        lastDeps = Some [ref], entranceRuns = 1\<rparr>"
  by (simp add: first_render renders_after_first)

lemma timing_frame:
  "translateY (frameAt easing spring t (entranceEffect a))
     = (if 1000 \<le> t then 0 else 300 - 300 * easing (t / 1000))"
  by (simp add: frameAt_def valueAt_def entranceEffect_def)

lemma timing_frame_mono:
  assumes "easingCurve easing" and "0 \<le> t1" and "t1 \<le> t2"
  shows "translateY (frameAt easing spring t2 (entranceEffect a))
       \<le> translateY (frameAt easing spring t1 (entranceEffect a))"
proof (cases "1000 \<le> t2")
  case True
  show ?thesis
  proof (cases "1000 \<le> t1")
    case True
    with \<open>1000 \<le> t2\<close> show ?thesis by (simp add: timing_frame)
  next
    case False
    with assms(2) have "0 \<le> t1 / 1000" "t1 / 1000 \<le> 1" by simp_all
    with assms(1) have "easing (t1 / 1000) \<le> easing 1"
      unfolding easingCurve_def by blast
    with assms(1) have "easing (t1 / 1000) \<le> 1" by (simp add: easingCurve_def)
    with True False show ?thesis by (simp add: timing_frame)
  qed
next
  case False
  with assms(2,3) have "0 \<le> t1 / 1000" "t1 / 1000 \<le> t2 / 1000" "t2 / 1000 \<le> 1"
    by simp_all
  with assms(1) have "easing (t1 / 1000) \<le> easing (t2 / 1000)"
    unfolding easingCurve_def by blast
  moreover from False assms(3) have "\<not> 1000 \<le> t1" by simp
  ultimately show ?thesis using False by (simp add: timing_frame)
qed

text \<open>
  C5. After the first render \<open>translateY\<close> is 300 with a time-based animation towards 0
  of duration 1000 ms assigned to it, not a spring. Along an easing curve its frames
  start at 300, never increase, and are 0 from 1000 ms on. The entrance has run exactly
  once after any number of renders, and a later render leaves the component as it is,
  whatever the shared values have become.
\<close>

theorem entrance_runs_once:
  assumes "easingCurve easing"
  shows "sharedValues (renderTimes (Suc k) (mountBottomUpAnimation ref ctxStartY))
           = entranceEffect (useSharedValues ctxStartY)
       \<and> entranceRuns (renderTimes (Suc k) (mountBottomUpAnimation ref ctxStartY)) = 1
       \<and> translateY (sheetValues (entranceEffect a)) = 300
       \<and> translateYAnimation (entranceEffect a) = Some (WithTiming 0 1000)
       \<and> translateY (frameAt easing spring 0 (entranceEffect a)) = 300
       \<and> (1000 \<le> t \<longrightarrow> translateY (frameAt easing spring t (entranceEffect a)) = 0)
       \<and> (0 \<le> t1 \<and> t1 \<le> t2
            \<longrightarrow> translateY (frameAt easing spring t2 (entranceEffect a))
                \<le> translateY (frameAt easing spring t1 (entranceEffect a)))
       \<and> renderBottomUpAnimation
             ((renderTimes (Suc k) (mountBottomUpAnimation ref ctxStartY))\<lparr>sharedValues := later\<rparr>)
           = (renderTimes (Suc k) (mountBottomUpAnimation ref ctxStartY))\<lparr>sharedValues := later\<rparr>"
proof -
  have "translateY (frameAt easing spring 0 (entranceEffect a)) = 300"
    using assms by (simp add: timing_frame easingCurve_def)
  moreover have "1000 \<le> t \<longrightarrow> translateY (frameAt easing spring t (entranceEffect a)) = 0"
    by (simp add: timing_frame)
  moreover have "0 \<le> t1 \<and> t1 \<le> t2
      \<longrightarrow> translateY (frameAt easing spring t2 (entranceEffect a))
          \<le> translateY (frameAt easing spring t1 (entranceEffect a))"
    using timing_frame_mono [OF assms] by blast
  moreover have "renderBottomUpAnimation
        ((renderTimes (Suc k) (mountBottomUpAnimation ref ctxStartY))\<lparr>sharedValues := later\<rparr>)
      = (renderTimes (Suc k) (mountBottomUpAnimation ref ctxStartY))\<lparr>sharedValues := later\<rparr>"
    by (rule render_after_first) (simp add: renders_entrance_once del: renderTimes.simps)
  ultimately show ?thesis
    by (simp add: renders_entrance_once entranceEffect_def del: renderTimes.simps)
qed

theorem entrance_runs_once_witness:
  "entranceRuns (renderTimes (Suc 3) (mountBottomUpAnimation 7 0)) = 1
   \<and> entranceRuns
        (renderBottomUpAnimation
          ((renderTimes (Suc 3) (mountBottomUpAnimation 7 0))
             \<lparr>sharedValues := onEnd 250 (useSharedValues 0)\<rparr>)) = 1
   \<and> translateY (sheetValues (sharedValues (renderTimes (Suc 3) (mountBottomUpAnimation 7 0))))
       = 300
   \<and> translateY (frameAt linearEasing snapSpring 0 (entranceEffect (useSharedValues 0))) = 300
   \<and> translateY (frameAt linearEasing snapSpring 250 (entranceEffect (useSharedValues 0))) = 225
   \<and> translateY (frameAt linearEasing snapSpring 500 (entranceEffect (useSharedValues 0))) = 150
   \<and> translateY (frameAt linearEasing snapSpring 1000 (entranceEffect (useSharedValues 0))) = 0
   \<and> translateY (frameAt linearEasing snapSpring 1500 (entranceEffect (useSharedValues 0))) = 0"
  using entrance_runs_once
      [OF linearEasing_curve, of 3 7 0 "useSharedValues 0" snapSpring 1000 250 500
        "onEnd 250 (useSharedValues 0)"]
    entrance_runs_once
      [OF linearEasing_curve, of 3 7 0 "useSharedValues 0" snapSpring 1500 0 250
        "onEnd 250 (useSharedValues 0)"]
  by (simp add: frameAt_def valueAt_def entranceEffect_def useSharedValues_def linearEasing_def
      del: renderTimes.simps)

end
